theory Spec2Isabelle
  imports Main "HOL-Library.Word"
begin

unbundle bit_operations_syntax

section \<open>Data model (main.go, lines 15-23)\<close>

text \<open>
  Go's \<open>int64\<close> is a 64-bit word read in two's complement: \<open>+\<close> wraps, and the
  comparison \<open>t.ID > max\<close> of the source is the signed order \<open>max <s ID t\<close>.
  A \<open>time.Time\<close> is taken as an instant, counted in nanoseconds since the Unix epoch;
  the pointer \<open>*time.Time\<close> of \<open>CompletedAt\<close> is an option (\<open>nil\<close> is \<open>None\<close>).
  Both the nil slice and \<open>Tasks{}\<close> are the empty list.
\<close>

type_synonym int64 = "64 word"
type_synonym Time = int
type_synonym bytes = string

record Task =
  ID :: int64
  Title :: string
  Done :: bool
  CreatedAt :: Time
  CompletedAt :: "Time option"

type_synonym Tasks = "Task list"

section \<open>Errors\<close>

text \<open>
  The source builds its errors with \<open>errors.New\<close> and \<open>fmt.Errorf\<close> or passes on the
  errors of the standard library. One constructor per origin.
\<close>

datatype error =
    Usage string \<comment> \<open>\<open>errors.New("usage: ...")\<close>: a command called with too few arguments\<close>
  | NumError string \<comment> \<open>\<open>strconv.ParseInt\<close> rejected this argument\<close>
  | TaskNotFound int64 \<comment> \<open>\<open>fmt.Errorf("task %d not found", id)\<close>\<close>
  | NotExist string \<comment> \<open>an error of package os for which \<open>os.IsNotExist\<close> holds\<close>
  | PathError string string \<comment> \<open>any other error of package os: operation and path\<close>
  | HomeError \<comment> \<open>\<open>os.UserHomeDir\<close> failed\<close>
  | JSONError string \<comment> \<open>an error of \<open>encoding/json\<close>\<close>

section \<open>The environment of a command\<close>

text \<open>
  One invocation of the program runs against the process environment, the file system,
  the clock and the two output streams. The file system is a flat map from path names to
  nodes. The set \<open>locked\<close> holds the paths at which the operating system refuses every
  operation (permissions, a missing parent directory, a failing disk): this is where the
  \<open>err != nil\<close> branches of the source come from. A refused operation leaves the file
  system as it was. \<open>clock w n\<close> is what the \<open>n\<close>-th coming call of \<open>time.Now()\<close>
  returns.
\<close>

datatype node = File bytes | Dir

record world =
  TODO_FILE :: string
  home :: "string option"
  fs :: "string \<rightharpoonup> node"
  locked :: "string set"
  clock :: "nat \<Rightarrow> Time"
  stdout :: "string list"
  stderr :: "string list"

definition os_UserHomeDir :: "world \<Rightarrow> error + string" where
  "os_UserHomeDir w = (case home w of None \<Rightarrow> Inl HomeError | Some h \<Rightarrow> Inr h)"

text \<open>\<open>filepath.Join\<close> on two clean components.\<close>

definition filepath_Join :: "string \<Rightarrow> string \<Rightarrow> string" where
  "filepath_Join a b = a @ ''/'' @ b"

definition os_MkdirAll :: "string \<Rightarrow> world \<Rightarrow> error option \<times> world" where
  "os_MkdirAll d w =
    (if d \<in> locked w then (Some (PathError ''mkdir'' d), w)
     else case fs w d of
       Some (File b) \<Rightarrow> (Some (PathError ''mkdir'' d), w)
     | _ \<Rightarrow> (None, w\<lparr>fs := (fs w)(d \<mapsto> Dir)\<rparr>))"

definition os_Stat :: "string \<Rightarrow> world \<Rightarrow> error option" where
  "os_Stat p w =
    (if p \<in> locked w then Some (PathError ''stat'' p)
     else if fs w p = None then Some (NotExist p)
     else None)"

definition os_IsNotExist :: "error option \<Rightarrow> bool" where
  "os_IsNotExist e = (case e of Some (NotExist p) \<Rightarrow> True | _ \<Rightarrow> False)"

definition os_ReadFile :: "string \<Rightarrow> world \<Rightarrow> error + bytes" where
  "os_ReadFile p w =
    (if p \<in> locked w then Inl (PathError ''open'' p)
     else case fs w p of
       None \<Rightarrow> Inl (NotExist p)
     | Some Dir \<Rightarrow> Inl (PathError ''read'' p)
     | Some (File b) \<Rightarrow> Inr b)"

definition os_WriteFile :: "string \<Rightarrow> bytes \<Rightarrow> world \<Rightarrow> error option \<times> world" where
  "os_WriteFile p b w =
    (if p \<in> locked w then (Some (PathError ''open'' p), w)
     else case fs w p of
       Some Dir \<Rightarrow> (Some (PathError ''open'' p), w)
     | _ \<Rightarrow> (None, w\<lparr>fs := (fs w)(p \<mapsto> File b)\<rparr>))"

definition os_Rename :: "string \<Rightarrow> string \<Rightarrow> world \<Rightarrow> error option \<times> world" where
  "os_Rename old new w =
    (if old \<in> locked w \<or> new \<in> locked w then (Some (PathError ''rename'' old), w)
     else case fs w old of
       None \<Rightarrow> (Some (NotExist old), w)
     | Some n \<Rightarrow>
        (case fs w new of
           Some Dir \<Rightarrow> (Some (PathError ''rename'' old), w)
         | _ \<Rightarrow> (None, w\<lparr>fs := (fs w)(old := None, new \<mapsto> n)\<rparr>)))"

definition time_Now :: "world \<Rightarrow> Time \<times> world" where
  "time_Now w = (clock w 0, w\<lparr>clock := (\<lambda>n. clock w (Suc n))\<rparr>)"

definition Unix :: "Time \<Rightarrow> int" where
  "Unix t = t div 1000000000"

definition print_stdout :: "string \<Rightarrow> world \<Rightarrow> world" where
  "print_stdout s w = w\<lparr>stdout := stdout w @ [s]\<rparr>"

definition print_stderr :: "string \<Rightarrow> world \<Rightarrow> world" where
  "print_stderr s w = w\<lparr>stderr := stderr w @ [s]\<rparr>"

section \<open>Library functions on strings and numbers\<close>

definition newline :: string where
  "newline = [CHR 0x0A]"

definition digit_char :: "nat \<Rightarrow> char" where
  "digit_char d = ''0123456789'' ! d"

fun digits :: "nat \<Rightarrow> string" where
  "digits n = (if n < 10 then [digit_char n] else digits (n div 10) @ [digit_char (n mod 10)])"

declare digits.simps [simp del]

text \<open>The verb \<open>%d\<close> of package fmt.\<close>

definition fmt_d :: "int \<Rightarrow> string" where
  "fmt_d k = (if k < 0 then CHR ''-'' # digits (nat (- k)) else digits (nat k))"

fun strings_Join :: "string list \<Rightarrow> string \<Rightarrow> string" where
  "strings_Join [] sep = []"
| "strings_Join [a] sep = a"
| "strings_Join (a # b # rest) sep = a @ sep @ strings_Join (b # rest) sep"

definition digit_val :: "char \<Rightarrow> nat option" where
  "digit_val c =
    (if (48::nat) \<le> of_char c \<and> of_char c \<le> (57::nat) then Some (of_char c - 48) else None)"

fun parse_digits :: "string \<Rightarrow> nat \<Rightarrow> nat option" where
  "parse_digits [] acc = Some acc"
| "parse_digits (c # cs) acc =
    (case digit_val c of None \<Rightarrow> None | Some d \<Rightarrow> parse_digits cs (10 * acc + d))"

text \<open>
  \<open>strconv.ParseInt(s, 10, 64)\<close>: an optional sign, then at least one decimal digit and
  nothing else; the value must lie in \<open>[-2^63, 2^63 - 1]\<close>.
\<close>

definition strconv_ParseInt :: "string \<Rightarrow> error + int64" where
  "strconv_ParseInt s =
    (if s = [] then Inl (NumError s)
     else
       let neg = (hd s = CHR ''-'');
           rest = (if hd s = CHR ''+'' \<or> hd s = CHR ''-'' then tl s else s)
       in if rest = [] then Inl (NumError s)
          else case parse_digits rest 0 of
            None \<Rightarrow> Inl (NumError s)
          | Some n \<Rightarrow>
              if \<not> neg \<and> 2 ^ 63 \<le> n then Inl (NumError s)
              else if neg \<and> 2 ^ 63 < n then Inl (NumError s)
              else Inr (if neg then - word_of_nat n else word_of_nat n))"

section \<open>The JSON codec\<close>

text \<open>
  \<open>encoding/json\<close> and the (un)marshalling of \<open>time.Time\<close> belong to Go's standard
  library, not to this program; the program only calls them. They are a parameter of the
  model, a pair of functions that may fail. One fact about the decoder is fixed, because
  the program's treatment of an empty file rests on it: \<open>json.Unmarshal\<close> validates its
  input before decoding, and empty input is not a JSON value
  ("unexpected end of JSON input").
\<close>

record codec =
  json_encode :: "Tasks \<Rightarrow> error + bytes"
  json_decode :: "bytes \<Rightarrow> error + Tasks"

definition json_MarshalIndent :: "codec \<Rightarrow> Tasks \<Rightarrow> error + bytes" where
  "json_MarshalIndent J ts = json_encode J ts"

definition json_Unmarshal :: "codec \<Rightarrow> bytes \<Rightarrow> error + Tasks" where
  "json_Unmarshal J b =
    (if b = [] then Inl (JSONError ''unexpected end of JSON input'') else json_decode J b)"

section \<open>The task store (main.go, lines 25-84)\<close>

definition tasksFilePath :: "world \<Rightarrow> (error + string) \<times> world" where
  "tasksFilePath w =
    (if TODO_FILE w \<noteq> [] then (Inr (TODO_FILE w), w)
     else case os_UserHomeDir w of
       Inl e \<Rightarrow> (Inl e, w)
     | Inr h \<Rightarrow>
        (let dir = filepath_Join h ''.todo'' in
         case os_MkdirAll dir w of
           (Some e, w1) \<Rightarrow> (Inl e, w1)
         | (None, w1) \<Rightarrow> (Inr (filepath_Join dir ''tasks.json''), w1)))"

definition backup_name :: "string \<Rightarrow> Time \<Rightarrow> string" where
  "backup_name path now = path @ ''.broken.'' @ fmt_d (Unix now)"

definition corrupted_warning :: "string \<Rightarrow> string" where
  "corrupted_warning backup =
    ''Warning: tasks file corrupted. Backed up to '' @ backup
      @ '' and starting with empty list.'' @ newline"

definition loadTasks :: "codec \<Rightarrow> world \<Rightarrow> (error + Tasks) \<times> world" where
  "loadTasks J w =
    (case tasksFilePath w of
       (Inl e, w1) \<Rightarrow> (Inl e, w1)
     | (Inr path, w1) \<Rightarrow>
        (if os_IsNotExist (os_Stat path w1) then (Inr [], w1)
         else
           (case os_ReadFile path w1 of
              Inl e \<Rightarrow> (Inl e, w1)
            | Inr b \<Rightarrow>
               (case json_Unmarshal J b of
                  Inl e \<Rightarrow>
                    (case time_Now w1 of
                       (now, w2) \<Rightarrow>
                         (let backup = backup_name path now in
                          (case os_WriteFile backup b w2 of
                             (r, w3) \<Rightarrow>
                               (Inr [], print_stderr (corrupted_warning backup) w3))))
                | Inr ts \<Rightarrow> (Inr ts, w1)))))"

definition saveTasks :: "codec \<Rightarrow> Tasks \<Rightarrow> world \<Rightarrow> error option \<times> world" where
  "saveTasks J ts w =
    (case tasksFilePath w of
       (Inl e, w1) \<Rightarrow> (Some e, w1)
     | (Inr path, w1) \<Rightarrow>
        (case json_MarshalIndent J ts of
           Inl e \<Rightarrow> (Some e, w1)
         | Inr b \<Rightarrow>
            (let tmp = path @ ''.tmp'' in
             case os_WriteFile tmp b w1 of
               (Some e, w2) \<Rightarrow> (Some e, w2)
             | (None, w2) \<Rightarrow> os_Rename tmp path w2)))"

section \<open>Helpers on a collection (main.go, lines 86-103)\<close>

definition nextID :: "Tasks \<Rightarrow> int64" where
  "nextID ts = fold (\<lambda>t mx. if mx <s ID t then ID t else mx) ts 0 + 1"

text \<open>
  The loop of \<open>findIndexByID\<close>, with the running index \<open>i\<close> of \<open>range\<close>; the result is
  a Go \<open>int\<close>, \<open>-1\<close> when no task matches.
\<close>

fun findIndexFrom :: "Tasks \<Rightarrow> int64 \<Rightarrow> int \<Rightarrow> int" where
  "findIndexFrom [] tid i = - 1"
| "findIndexFrom (t # ts) tid i = (if ID t = tid then i else findIndexFrom ts tid (i + 1))"

definition findIndexByID :: "Tasks \<Rightarrow> int64 \<Rightarrow> int" where
  "findIndexByID ts tid = findIndexFrom ts tid 0"

section \<open>The commands (main.go, lines 105-228)\<close>

text \<open>
  A command takes its arguments and the environment and returns the error it reports
  (\<open>None\<close> is Go's \<open>nil\<close>) with the environment it leaves behind.
\<close>

definition cmdAdd :: "codec \<Rightarrow> string list \<Rightarrow> world \<Rightarrow> error option \<times> world" where
  "cmdAdd J args w =
    (if length args = 0 then (Some (Usage ''usage: todo add <task title>''), w)
     else
       let title = strings_Join args '' '' in
       case loadTasks J w of
         (Inl e, w1) \<Rightarrow> (Some e, w1)
       | (Inr ts, w1) \<Rightarrow>
          (let tid = nextID ts in
           case time_Now w1 of
             (now, w2) \<Rightarrow>
               (let t = \<lparr>ID = tid, Title = title, Done = False, CreatedAt = now,
                          CompletedAt = None\<rparr>;
                    ts' = ts @ [t]
                in case saveTasks J ts' w2 of
                     (Some e, w3) \<Rightarrow> (Some e, w3)
                   | (None, w3) \<Rightarrow>
                       (None, print_stdout
                          (''Added '' @ fmt_d (sint tid) @ '': '' @ title @ newline) w3))))"


definition cmdRemove :: "codec \<Rightarrow> string list \<Rightarrow> world \<Rightarrow> error option \<times> world" where
  "cmdRemove J args w =
    (if length args = 0 then (Some (Usage ''usage: todo rm <id>''), w)
     else case strconv_ParseInt (args ! 0) of
       Inl e \<Rightarrow> (Some e, w)
     | Inr tid \<Rightarrow>
        (case loadTasks J w of
           (Inl e, w1) \<Rightarrow> (Some e, w1)
         | (Inr ts, w1) \<Rightarrow>
            (let i = findIndexByID ts tid in
             if i = - 1 then (Some (TaskNotFound tid), w1)
             else
               let ts' = take (nat i) ts @ drop (nat (i + 1)) ts
               in case saveTasks J ts' w1 of
                    (Some e, w2) \<Rightarrow> (Some e, w2)
                  | (None, w2) \<Rightarrow>
                      (None, print_stdout
                         (''Removed '' @ fmt_d (sint tid) @ newline) w2))))"

definition cmdEdit :: "codec \<Rightarrow> string list \<Rightarrow> world \<Rightarrow> error option \<times> world" where
  "cmdEdit J args w =
    (if length args < 2 then (Some (Usage ''usage: todo edit <id> <new title>''), w)
     else case strconv_ParseInt (args ! 0) of
       Inl e \<Rightarrow> (Some e, w)
     | Inr tid \<Rightarrow>
        (let newTitle = strings_Join (drop 1 args) '' '' in
         case loadTasks J w of
           (Inl e, w1) \<Rightarrow> (Some e, w1)
         | (Inr ts, w1) \<Rightarrow>
            (let i = findIndexByID ts tid in
             if i = - 1 then (Some (TaskNotFound tid), w1)
             else
               let ts' = ts[nat i := (ts ! nat i)\<lparr>Title := newTitle\<rparr>]
               in case saveTasks J ts' w1 of
                    (Some e, w2) \<Rightarrow> (Some e, w2)
                  | (None, w2) \<Rightarrow>
                      (None, print_stdout
                         (''Updated '' @ fmt_d (sint tid) @ newline) w2))))"

section \<open>What each command does to the loaded collection\<close>

text \<open>
  Between \<open>loadTasks\<close> and \<open>saveTasks\<close> each command computes a new collection from
  the one it loaded. These are those computations, taken out of the command bodies:
  \<open>addTask\<close> is lines 115-117, \<open>markDone\<close> lines 161-171, \<open>removeTask\<close> lines 192-196
  and \<open>editTask\<close> lines 218-222. The lemmas \<open>cmdAdd_addTask\<close>, \<open>cmdDo_markDone\<close>,
  \<open>cmdRemove_removeTask\<close> and \<open>cmdEdit_editTask\<close> below prove that each command is its
  load, this computation, and its save.
\<close>

definition addTask :: "Tasks \<Rightarrow> string \<Rightarrow> Time \<Rightarrow> int64 \<times> Tasks" where
  "addTask ts title now =
    (let tid = nextID ts;
         t = \<lparr>ID = tid, Title = title, Done = False, CreatedAt = now, CompletedAt = None\<rparr>
     in (tid, ts @ [t]))"

datatype marked = AlreadyCompleted | Marked Tasks

definition markDone :: "Tasks \<Rightarrow> int64 \<Rightarrow> Time \<Rightarrow> error + marked" where
  "markDone ts tid now =
    (let i = findIndexByID ts tid in
     if i = - 1 then Inl (TaskNotFound tid)
     else if Done (ts ! nat i) then Inr AlreadyCompleted
     else Inr (Marked (ts[nat i := (ts ! nat i)\<lparr>Done := True, CompletedAt := Some now\<rparr>])))"

definition removeTask :: "Tasks \<Rightarrow> int64 \<Rightarrow> error + Tasks" where
  "removeTask ts tid =
    (let i = findIndexByID ts tid in
     if i = - 1 then Inl (TaskNotFound tid)
     else Inr (take (nat i) ts @ drop (nat (i + 1)) ts))"

definition editTask :: "Tasks \<Rightarrow> int64 \<Rightarrow> string \<Rightarrow> error + Tasks" where
  "editTask ts tid newTitle =
    (let i = findIndexByID ts tid in
     if i = - 1 then Inl (TaskNotFound tid)
     else Inr (ts[nat i := (ts ! nat i)\<lparr>Title := newTitle\<rparr>]))"

text \<open>
  A sequence of additions, each with its title and the clock reading at that moment;
  the result is the list of assigned ids and the final collection.
\<close>

fun addAll :: "(string \<times> Time) list \<Rightarrow> Tasks \<Rightarrow> int64 list \<times> Tasks" where
  "addAll [] ts = ([], ts)"
| "addAll ((title, now) # rest) ts =
    (case addTask ts title now of
       (tid, ts') \<Rightarrow> (case addAll rest ts' of (ids, ts'') \<Rightarrow> (tid # ids, ts'')))"

text \<open>The position of the first task, in insertion order, whose id is \<open>tid\<close>.\<close>

definition first_match :: "Tasks \<Rightarrow> int64 \<Rightarrow> nat" where
  "first_match ts tid = length (takeWhile (\<lambda>t. ID t \<noteq> tid) ts)"

text \<open>A pending task with a given id, for running the definitions on concrete collections.\<close>

definition pending :: "int64 \<Rightarrow> Task" where
  "pending i = \<lparr>ID = i, Title = ''task'', Done = False, CreatedAt = 0, CompletedAt = None\<rparr>"

text \<open>The same task, completed at instant 5.\<close>

definition finished :: "int64 \<Rightarrow> Task" where
  "finished i = \<lparr>ID = i, Title = ''task'', Done = True, CreatedAt = 0, CompletedAt = Some 5\<rparr>"


text \<open>
  Two relations between the environment before and after a step: the step leaves the
  variables that decide the store path and the refusals of the operating system alone, and
  it keeps every directory.
\<close>

definition same_env :: "world \<Rightarrow> world \<Rightarrow> bool" where
  "same_env w w' \<longleftrightarrow>
     TODO_FILE w' = TODO_FILE w \<and> home w' = home w \<and> locked w' = locked w"

definition keeps_dirs :: "world \<Rightarrow> world \<Rightarrow> bool" where
  "keeps_dirs w w' \<longleftrightarrow> (\<forall>d. fs w d = Some Dir \<longrightarrow> fs w' d = Some Dir)"

text \<open>
  An environment to run the commands in: the store path is given by \<open>TODO_FILE\<close>, the
  files and the refused paths are chosen, and the clock starts at second 3. A codec for
  such a run has a fixed answer in each direction.
\<close>

definition sample_world :: "(string \<rightharpoonup> node) \<Rightarrow> string set \<Rightarrow> world" where
  "sample_world files lk =
    \<lparr>TODO_FILE = ''tasks.json'', home = None, fs = files, locked = lk,
     clock = (\<lambda>n. 3000000000 + int n), stdout = [], stderr = []\<rparr>"

definition fixed_codec :: "error + bytes \<Rightarrow> error + Tasks \<Rightarrow> codec" where
  "fixed_codec e d = \<lparr>json_encode = (\<lambda>ts. e), json_decode = (\<lambda>b. d)\<rparr>"

section \<open>The first matching task\<close>

lemma findIndexFrom_eq:
  "findIndexFrom ts tid i =
     (if tid \<in> ID ` set ts then i + int (first_match ts tid) else - 1)"
  by (induction ts arbitrary: i) (auto simp: first_match_def)

lemma findIndexByID_eq:
  "findIndexByID ts tid = (if tid \<in> ID ` set ts then int (first_match ts tid) else - 1)"
  by (simp add: findIndexByID_def findIndexFrom_eq)

lemma first_match_less: "tid \<in> ID ` set ts \<Longrightarrow> first_match ts tid < length ts"
  unfolding first_match_def
  by (induction ts) auto

lemma first_match_ID: "tid \<in> ID ` set ts \<Longrightarrow> ID (ts ! first_match ts tid) = tid"
  using nth_length_takeWhile [of "\<lambda>t. ID t \<noteq> tid" ts] first_match_less [of tid ts]
  by (simp add: first_match_def)

lemma first_match_least: "j < first_match ts tid \<Longrightarrow> ID (ts ! j) \<noteq> tid"
  unfolding first_match_def
  using nth_mem [of j "takeWhile (\<lambda>t. ID t \<noteq> tid) ts"] set_takeWhileD [of "ts ! j" "\<lambda>t. ID t \<noteq> tid" ts]
  by (simp add: takeWhile_nth)





lemma markDone_cases:
  "markDone ts tid now =
    (if tid \<notin> ID ` set ts then Inl (TaskNotFound tid)
     else if Done (ts ! first_match ts tid) then Inr AlreadyCompleted
     else Inr (Marked (ts[first_match ts tid :=
            (ts ! first_match ts tid)\<lparr>Done := True, CompletedAt := Some now\<rparr>])))"
  by (simp add: markDone_def findIndexByID_eq Let_def)

lemma editTask_cases:
  "editTask ts tid title =
    (if tid \<notin> ID ` set ts then Inl (TaskNotFound tid)
     else Inr (ts[first_match ts tid := (ts ! first_match ts tid)\<lparr>Title := title\<rparr>]))"
  by (simp add: editTask_def findIndexByID_eq Let_def)

lemma removeTask_cases:
  "removeTask ts tid =
    (if tid \<notin> ID ` set ts then Inl (TaskNotFound tid)
     else Inr (take (first_match ts tid) ts @ drop (Suc (first_match ts tid)) ts))"
proof -
  have "nat (int (first_match ts tid) + 1) = Suc (first_match ts tid)" by simp
  then show ?thesis by (simp add: removeTask_def findIndexByID_eq Let_def)
qed



section \<open>The commands are load, computation, save\<close>

lemma cmdAdd_addTask:
  assumes "args \<noteq> []" and "loadTasks J w = (Inr ts, w1)"
  shows "cmdAdd J args w =
    (case addTask ts (strings_Join args '' '') (clock w1 0) of
       (tid, ts') \<Rightarrow>
         (case saveTasks J ts' (snd (time_Now w1)) of
            (Some e, w3) \<Rightarrow> (Some e, w3)
          | (None, w3) \<Rightarrow>
              (None, print_stdout
                 (''Added '' @ fmt_d (sint tid) @ '': '' @ strings_Join args '' '' @ newline) w3)))"
  using assms by (simp add: cmdAdd_def addTask_def time_Now_def Let_def)


lemma cmdRemove_removeTask:
  assumes "args \<noteq> []" and "strconv_ParseInt (args ! 0) = Inr tid"
    and "loadTasks J w = (Inr ts, w1)"
  shows "cmdRemove J args w =
    (case removeTask ts tid of
       Inl e \<Rightarrow> (Some e, w1)
     | Inr ts' \<Rightarrow>
         (case saveTasks J ts' w1 of
            (Some e, w2) \<Rightarrow> (Some e, w2)
          | (None, w2) \<Rightarrow>
              (None, print_stdout (''Removed '' @ fmt_d (sint tid) @ newline) w2)))"
  using assms by (simp add: cmdRemove_def removeTask_def Let_def)

lemma cmdEdit_editTask:
  assumes "2 \<le> length args" and "strconv_ParseInt (args ! 0) = Inr tid"
    and "loadTasks J w = (Inr ts, w1)"
  shows "cmdEdit J args w =
    (case editTask ts tid (strings_Join (drop 1 args) '' '') of
       Inl e \<Rightarrow> (Some e, w1)
     | Inr ts' \<Rightarrow>
         (case saveTasks J ts' w1 of
            (Some e, w2) \<Rightarrow> (Some e, w2)
          | (None, w2) \<Rightarrow>
              (None, print_stdout (''Updated '' @ fmt_d (sint tid) @ newline) w2)))"
  using assms by (simp add: cmdEdit_def editTask_def Let_def)

section \<open>The id of a new task\<close>

lemma Max_insert2:
  "finite S \<Longrightarrow> Max (insert (a::int) (insert b S)) = Max (insert (max a b) S)"
  by (cases "S = {}") (simp_all add: max.assoc)

lemma fold_max_sint:
  "sint (fold (\<lambda>t mx. if mx <s ID t then ID t else mx) ts m)
     = Max (insert (sint m) (sint ` ID ` set ts))"
proof (induction ts arbitrary: m)
  case Nil
  show ?case by simp
next
  case (Cons t ts)
  have step: "sint (if m <s ID t then ID t else m) = max (sint m) (sint (ID t))"
    by (simp add: word_sless_alt max_def)
  have "sint (fold (\<lambda>t mx. if mx <s ID t then ID t else mx) (t # ts) m)
      = Max (insert (max (sint m) (sint (ID t))) (sint ` ID ` set ts))"
    using Cons.IH [of "if m <s ID t then ID t else m"] step by simp
  also have "\<dots> = Max (insert (sint m) (insert (sint (ID t)) (sint ` ID ` set ts)))"
    by (rule Max_insert2 [symmetric]) simp
  finally show ?case by simp
qed

lemma len64: "LENGTH(64) - 1 = (63::nat)"
  by simp

lemma sint_one64: "sint (1 :: int64) = 1"
  by simp

lemma sint_succ64:
  "sint (x + 1 :: int64) = (if sint x = 2 ^ 63 - 1 then - (2 ^ 63) else sint x + 1)"
proof (cases "sint x = 2 ^ 63 - 1")
  case True
  have "sint x = sint (0x7FFFFFFFFFFFFFFF :: int64)" using True by simp
  then have "x = 0x7FFFFFFFFFFFFFFF" by (simp only: word_eq_iff_signed [symmetric])
  then show ?thesis using True by simp
next
  case False
  have "sint x < 2 ^ 63" "- (2 ^ 63) \<le> sint x"
    using sint_lt [of x] sint_ge [of x] by simp_all
  with False have r: "- (2 ^ 63) \<le> sint x + 1" "sint x + 1 < 2 ^ 63" by simp_all
  have "sint (x + 1) = signed_take_bit (LENGTH(64) - 1) (sint x + sint (1 :: int64))"
    by (rule sint_word_add)
  also have "\<dots> = signed_take_bit 63 (sint x + 1)" by (simp only: len64 sint_one64)
  also have "\<dots> = sint x + 1" using r by (simp only: signed_take_bit_int_eq_self)
  finally show ?thesis using False by simp
qed


lemma sint_nextID:
  "sint (nextID ts) =
     (if Max (insert 0 (sint ` ID ` set ts)) = 2 ^ 63 - 1 then - (2 ^ 63)
      else 1 + Max (insert 0 (sint ` ID ` set ts)))"
  using fold_max_sint [of ts 0]
  by (simp add: nextID_def sint_succ64)

lemma Max0_in: "Max (insert 0 (sint ` ID ` set ts)) \<in> insert 0 (sint ` ID ` set ts)"
  by (rule Max_in) simp_all

lemma sint_nextID_nowrap:
  assumes "\<forall>u\<in>set ts. sint (ID u) < 2 ^ 63 - 1"
  shows "sint (nextID ts) = 1 + Max (insert 0 (sint ` ID ` set ts))"
proof -
  let ?M = "Max (insert 0 (sint ` ID ` set ts))"
  have "?M < 2 ^ 63 - 1"
  proof (cases "?M = 0")
    case True
    then show ?thesis by simp
  next
    case False
    then have "?M \<in> sint ` ID ` set ts" using Max0_in [of ts] by blast
    then obtain t where t: "t \<in> set ts" "?M = sint (ID t)" by blast
    from assms t(1) have "sint (ID t) < 2 ^ 63 - 1" by blast
    then show ?thesis by (simp only: t(2))
  qed
  then have "?M \<noteq> 2 ^ 63 - 1" by linarith
  then show ?thesis by (simp only: sint_nextID if_False)
qed

text \<open>
  Claim C2, as the code has it. The id given to a new task is one more than the largest
  id in the collection, where the search for the largest starts from 0 and the addition
  is Go's 64-bit addition: with \<open>M\<close> the maximum of 0 and the ids present, the new id is
  \<open>1 + M\<close>, wrapping to \<open>-2^63\<close> when \<open>M = 2^63 - 1\<close>. It is 1 for the empty
  collection, and it is one more than the maximum id present whenever some id is at least
  0 and none is \<open>2^63 - 1\<close>.
\<close>

theorem nextID_max:
  "nextID [] = 1 \<and>
   sint (nextID ts) =
     (if Max (insert 0 (sint ` ID ` set ts)) = 2 ^ 63 - 1 then - (2 ^ 63)
      else 1 + Max (insert 0 (sint ` ID ` set ts))) \<and>
   ((\<exists>t\<in>set ts. 0 \<le> sint (ID t)) \<and> (\<forall>u\<in>set ts. sint (ID u) < 2 ^ 63 - 1)
      \<longrightarrow> sint (nextID ts) = 1 + Max (sint ` ID ` set ts)) \<and>
   fst (addTask ts title now) = nextID ts"
proof (intro conjI impI)
  show "nextID [] = 1" by (simp add: nextID_def)
  show "sint (nextID ts) =
     (if Max (insert 0 (sint ` ID ` set ts)) = 2 ^ 63 - 1 then - (2 ^ 63)
      else 1 + Max (insert 0 (sint ` ID ` set ts)))"
    by (rule sint_nextID)
  show "fst (addTask ts title now) = nextID ts" by (simp add: addTask_def Let_def)
  assume h: "(\<exists>t\<in>set ts. 0 \<le> sint (ID t)) \<and> (\<forall>u\<in>set ts. sint (ID u) < 2 ^ 63 - 1)"
  then obtain t where t: "t \<in> set ts" "0 \<le> sint (ID t)" by blast
  let ?S = "sint ` ID ` set ts"
  have ne: "?S \<noteq> {}" using t by auto
  have "sint (ID t) \<le> Max ?S" using t by simp
  then have "0 \<le> Max ?S" using t by linarith
  then have m: "Max (insert 0 ?S) = Max ?S" using ne by (simp add: max_def)
  have "sint (nextID ts) = 1 + Max (insert 0 ?S)"
    using h by (intro sint_nextID_nowrap) blast
  then show "sint (nextID ts) = 1 + Max ?S" by (simp only: m)
qed

theorem nextID_max_witness:
  "0 \<le> sint (ID (pending 3)) \<and>
   sint (ID (pending 3)) < 2 ^ 63 - 1 \<and> sint (ID (pending 7)) < 2 ^ 63 - 1 \<and>
   Max (sint ` ID ` set [pending 3, pending 7]) = 7 \<and>
   sint (nextID [pending 3, pending 7]) = 8 \<and>
   sint (fst (addTask [pending 3, pending 7] ''X'' 0)) = 8"
  using nextID_max [of "[pending 3, pending 7]" "''X''" 0]
  by (simp add: pending_def)

theorem nextID_max_counterexample:
  "sint (nextID [pending (- 5)]) = 1 \<and>
   sint (nextID [pending (- 5)]) \<noteq> 1 + Max (sint ` ID ` set [pending (- 5)])"
  by (simp add: nextID_def pending_def word_sless_alt)

section \<open>Removing, then adding\<close>




section \<open>Additions from the empty collection\<close>

lemma addTask_ids_upto:
  assumes "map (\<lambda>t. sint (ID t)) ts = map int [1..<Suc n]" and "n < 2 ^ 63 - 1"
  shows "sint (nextID ts) = int (Suc n)"
proof -
  have "sint ` ID ` set ts = set (map (\<lambda>t. sint (ID t)) ts)" by auto
  also have "\<dots> = set (map int [1..<Suc n])" by (simp only: assms(1))
  also have "\<dots> = int ` {1..n}"
    by (simp del: upt_Suc add: atLeastLessThanSuc_atLeastAtMost)
  finally have S: "sint ` ID ` set ts = int ` {1..n}" .
  have "Max (insert 0 (int ` {1..n})) = int n"
  proof (rule Max_eqI)
    show "finite (insert 0 (int ` {1..n}))" by simp
    show "\<And>y. y \<in> insert 0 (int ` {1..n}) \<Longrightarrow> y \<le> int n" by auto
    show "int n \<in> insert 0 (int ` {1..n})"
    proof (cases "n = 0")
      case True
      then show ?thesis by simp
    next
      case False
      then have "n \<in> {1..n}" by simp
      then have "int n \<in> int ` {1..n}" by (rule imageI)
      then show ?thesis by simp
    qed
  qed
  with S have "Max (insert 0 (sint ` ID ` set ts)) = int n" by simp
  moreover have "int n \<noteq> 2 ^ 63 - 1" using assms(2) by simp
  ultimately show ?thesis by (simp add: sint_nextID)
qed

lemma addAll_ids:
  assumes "map (\<lambda>t. sint (ID t)) ts = map int [1..<Suc n]" and "n + length xs < 2 ^ 63"
  shows "map sint (fst (addAll xs ts)) = map int [Suc n..<Suc (n + length xs)]
       \<and> map (\<lambda>t. sint (ID t)) (snd (addAll xs ts)) = map int [1..<Suc (n + length xs)]
       \<and> map ID (snd (addAll xs ts)) = map ID ts @ fst (addAll xs ts)"
  using assms
proof (induction xs arbitrary: ts n)
  case Nil
  then show ?case by simp
next
  case (Cons x xs)
  obtain title now where x: "x = (title, now)" by (cases x)
  let ?t = "\<lparr>ID = nextID ts, Title = title, Done = False, CreatedAt = now, CompletedAt = None\<rparr>"
  have n: "n < 2 ^ 63 - 1" using Cons.prems(2) by simp
  have nid: "sint (nextID ts) = int (Suc n)"
    using Cons.prems(1) n by (rule addTask_ids_upto)
  have "[1..<Suc (Suc n)] = [1..<Suc n] @ [Suc n]" by (rule upt_Suc_append) simp
  then have inv: "map (\<lambda>t. sint (ID t)) (ts @ [?t]) = map int [1..<Suc (Suc n)]"
    using Cons.prems(1) nid by (simp del: upt_Suc)
  have len: "Suc n + length xs < 2 ^ 63" using Cons.prems(2) by simp
  note IH = Cons.IH [OF inv len]
  have unfold: "addAll (x # xs) ts =
      (nextID ts # fst (addAll xs (ts @ [?t])), snd (addAll xs (ts @ [?t])))"
    by (simp add: x addTask_def Let_def split: prod.splits)
  have "[Suc n..<Suc (n + length (x # xs))] = Suc n # [Suc (Suc n)..<Suc (Suc n + length xs)]"
    by (simp add: upt_rec)
  then show ?case
    using IH nid by (simp del: upt_Suc add: unfold)
qed

text \<open>
  Claim C8. Any sequence of additions starting from the empty collection, of a length a Go
  slice can have (fewer than \<open>2^63\<close> elements), assigns the ids 1, 2, 3, ... in this
  order: the assigned ids are strictly increasing in the signed order of \<open>int64\<close>, they
  are the ids of the resulting collection, and these are pairwise distinct.
\<close>

theorem adds_from_empty:
  assumes "length xs < 2 ^ 63"
  shows "map sint (fst (addAll xs [])) = map int [1..<Suc (length xs)]
       \<and> sorted_wrt (<s) (fst (addAll xs []))
       \<and> map ID (snd (addAll xs [])) = fst (addAll xs [])
       \<and> distinct (map ID (snd (addAll xs [])))"
proof -
  let ?ids = "fst (addAll xs [])"
  have a: "map sint ?ids = map int [1..<Suc (length xs)]"
    and b: "map ID (snd (addAll xs [])) = ?ids"
    using addAll_ids [of "[]" 0 xs] assms by (simp_all del: upt_Suc)
  have "sorted_wrt (<) (map int [1..<Suc (length xs)])"
    by (simp del: upt_Suc add: sorted_wrt_map)
  then have "sorted_wrt (<) (map sint ?ids)" by (simp only: a)
  moreover have "(<s) = (\<lambda>x y :: int64. sint x < sint y)"
    by (intro ext) (simp add: word_sless_alt)
  ultimately have c: "sorted_wrt (<s) ?ids"
    by (simp add: sorted_wrt_map)
  have "distinct (map int [1..<Suc (length xs)])"
    by (simp del: upt_Suc add: distinct_map)
  then have "distinct (map sint ?ids)" by (simp only: a)
  then have d: "distinct ?ids" by (simp add: distinct_map)
  from a b c d show ?thesis by simp
qed

theorem adds_from_empty_witness:
  "length [(''a'', 10), (''b'', 20), (''c'', 30 :: Time)] < 2 ^ 63 \<and>
   fst (addAll [(''a'', 10), (''b'', 20), (''c'', 30)] []) = [1, 2, 3] \<and>
   sorted_wrt (<s) (fst (addAll [(''a'', 10), (''b'', 20), (''c'', 30)] [])) \<and>
   distinct (map ID (snd (addAll [(''a'', 10), (''b'', 20), (''c'', 30)] [])))"
proof -
  have h: "length [(''a'', 10), (''b'', 20), (''c'', 30 :: Time)] < 2 ^ 63" by simp
  have e: "fst (addAll [(''a'', 10), (''b'', 20), (''c'', 30)] []) = [1, 2, 3]"
    by (simp add: addTask_def nextID_def word_sless_alt)
  from adds_from_empty [OF h] h e show ?thesis by simp
qed

section \<open>The store path, loading and saving\<close>

lemma tasksFilePath_cases:
  assumes "tasksFilePath w = (Inr path, w1)"
  shows "(TODO_FILE w = path \<and> path \<noteq> [] \<and> w1 = w) \<or>
         (\<exists>h. TODO_FILE w = [] \<and> home w = Some h
            \<and> path = filepath_Join (filepath_Join h ''.todo'') ''tasks.json''
            \<and> filepath_Join h ''.todo'' \<notin> locked w
            \<and> w1 = w\<lparr>fs := (fs w)(filepath_Join h ''.todo'' \<mapsto> Dir)\<rparr>)"
  using assms
  by (auto simp: tasksFilePath_def os_UserHomeDir_def os_MkdirAll_def Let_def
      split: if_splits option.splits node.splits prod.splits)

lemma tasksFilePath_fs_other:
  assumes "tasksFilePath w = (Inr path, w1)"
  shows "fs w1 (path @ s) = fs w (path @ s)"
  using tasksFilePath_cases [OF assms]
  by (auto simp: filepath_Join_def)

lemma tasksFilePath_env:
  assumes "tasksFilePath w = (r, w1)"
  shows "same_env w w1 \<and> keeps_dirs w w1 \<and> stdout w1 = stdout w \<and> stderr w1 = stderr w
         \<and> clock w1 = clock w"
  using assms
  by (auto simp: tasksFilePath_def os_UserHomeDir_def os_MkdirAll_def Let_def same_env_def
      keeps_dirs_def split: if_splits option.splits node.splits prod.splits sum.splits)

lemma tasksFilePath_again:
  assumes "tasksFilePath w = (Inr path, w1)" and "same_env w w2" and "keeps_dirs w1 w2"
  shows "tasksFilePath w2 = (Inr path, w2)"
proof -
  from tasksFilePath_cases [OF assms(1)] show ?thesis
  proof
    assume "TODO_FILE w = path \<and> path \<noteq> [] \<and> w1 = w"
    then show ?thesis using assms(2) by (simp add: tasksFilePath_def same_env_def)
  next
    assume "\<exists>h. TODO_FILE w = [] \<and> home w = Some h
            \<and> path = filepath_Join (filepath_Join h ''.todo'') ''tasks.json''
            \<and> filepath_Join h ''.todo'' \<notin> locked w
            \<and> w1 = w\<lparr>fs := (fs w)(filepath_Join h ''.todo'' \<mapsto> Dir)\<rparr>"
    then obtain h where h: "TODO_FILE w = []" "home w = Some h"
      "path = filepath_Join (filepath_Join h ''.todo'') ''tasks.json''"
      "filepath_Join h ''.todo'' \<notin> locked w"
      "w1 = w\<lparr>fs := (fs w)(filepath_Join h ''.todo'' \<mapsto> Dir)\<rparr>" by blast
    have d: "fs w2 (filepath_Join h ''.todo'') = Some Dir"
      using assms(3) h(5) by (simp add: keeps_dirs_def)
    then have "(fs w2)(filepath_Join h ''.todo'' \<mapsto> Dir) = fs w2" by (rule fun_upd_idem)
    then have "w2\<lparr>fs := (fs w2)(filepath_Join h ''.todo'' \<mapsto> Dir)\<rparr> = w2" by simp
    then show ?thesis
      using h assms(2) d
      by (simp add: tasksFilePath_def same_env_def os_UserHomeDir_def os_MkdirAll_def)
  qed
qed

lemma tasksFilePath_files:
  assumes "tasksFilePath w = (Inr path, w1)" and "fs w1 p = Some (File c)"
  shows "fs w p = Some (File c)"
  using tasksFilePath_cases [OF assms(1)] assms(2)
  by (auto split: if_splits)

lemma keeps_dirs_trans: "keeps_dirs a b \<Longrightarrow> keeps_dirs b c \<Longrightarrow> keeps_dirs a c"
  by (simp add: keeps_dirs_def)

lemma same_env_trans: "same_env a b \<Longrightarrow> same_env b c \<Longrightarrow> same_env a c"
  by (simp add: same_env_def)

lemma time_Now_env:
  "same_env w (snd (time_Now w)) \<and> keeps_dirs w (snd (time_Now w))
     \<and> stdout (snd (time_Now w)) = stdout w \<and> fs (snd (time_Now w)) = fs w"
  by (simp add: time_Now_def same_env_def keeps_dirs_def)

lemma os_ReadFile_Inr:
  "os_ReadFile p w = Inr b \<longleftrightarrow> p \<notin> locked w \<and> fs w p = Some (File b)"
  by (auto simp: os_ReadFile_def split: option.splits node.splits)

lemma os_WriteFile_cases:
  "os_WriteFile p b w =
     (if p \<in> locked w \<or> fs w p = Some Dir then (Some (PathError ''open'' p), w)
      else (None, w\<lparr>fs := (fs w)(p \<mapsto> File b)\<rparr>))"
  by (auto simp: os_WriteFile_def split: option.splits node.splits)

lemma json_Unmarshal_empty: "json_Unmarshal J [] = Inl (JSONError ''unexpected end of JSON input'')"
  by (simp add: json_Unmarshal_def)

lemma loadTasks_corrupt:
  assumes "tasksFilePath w = (Inr path, w1)" and "os_ReadFile path w1 = Inr b"
    and "json_Unmarshal J b = Inl e"
  shows "loadTasks J w =
    (Inr [], print_stderr (corrupted_warning (backup_name path (clock w 0)))
       (snd (os_WriteFile (backup_name path (clock w 0)) b (snd (time_Now w1)))))"
proof -
  have c: "clock w1 = clock w" using tasksFilePath_env [OF assms(1)] by simp
  have "\<not> os_IsNotExist (os_Stat path w1)"
    using assms(2) by (simp add: os_ReadFile_Inr os_Stat_def os_IsNotExist_def)
  then show ?thesis
    using assms c by (simp add: loadTasks_def time_Now_def Let_def split: prod.splits)
qed

lemma loadTasks_decoded:
  assumes "tasksFilePath w = (Inr path, w1)" and "os_ReadFile path w1 = Inr b"
    and "json_Unmarshal J b = Inr ts"
  shows "loadTasks J w = (Inr ts, w1)"
proof -
  have "\<not> os_IsNotExist (os_Stat path w1)"
    using assms(2) by (simp add: os_ReadFile_Inr os_Stat_def os_IsNotExist_def)
  then show ?thesis using assms by (simp add: loadTasks_def)
qed

lemma loadTasks_absent:
  assumes "tasksFilePath w = (Inr path, w1)" and "path \<notin> locked w1" and "fs w1 path = None"
  shows "loadTasks J w = (Inr [], w1)"
  using assms by (simp add: loadTasks_def os_Stat_def os_IsNotExist_def)

lemma loadTasks_env:
  assumes "tasksFilePath w = (Inr path, w1)" and "loadTasks J w = (r, w')"
  shows "same_env w w' \<and> keeps_dirs w1 w' \<and> stdout w' = stdout w
       \<and> (\<forall>s. s \<noteq> ''.broken.'' @ fmt_d (Unix (clock w 0)) \<longrightarrow> fs w' (path @ s) = fs w (path @ s))"
proof -
  have e: "same_env w w1" "stdout w1 = stdout w" "clock w1 = clock w"
    using tasksFilePath_env [OF assms(1)] by simp_all
  have f: "\<And>s. fs w1 (path @ s) = fs w (path @ s)"
    using tasksFilePath_fs_other [OF assms(1)] .
  have "w' = w1 \<or> (\<exists>b. w' = print_stderr (corrupted_warning (backup_name path (clock w 0)))
       (snd (os_WriteFile (backup_name path (clock w 0)) b (snd (time_Now w1)))))"
  proof (cases "os_IsNotExist (os_Stat path w1)")
    case True
    then show ?thesis using assms by (simp add: loadTasks_def)
  next
    case False
    show ?thesis
    proof (cases "os_ReadFile path w1")
      case (Inl x)
      then show ?thesis using assms False by (simp add: loadTasks_def)
    next
      case (Inr b)
      show ?thesis
      proof (cases "json_Unmarshal J b")
        case (Inl x)
        from loadTasks_corrupt [OF assms(1) Inr Inl] assms(2) show ?thesis by auto
      next
        case (Inr ts)
        from loadTasks_decoded [OF assms(1) \<open>os_ReadFile path w1 = Inr b\<close> Inr] assms(2)
        show ?thesis by simp
      qed
    qed
  qed
  then show ?thesis
  proof
    assume "w' = w1"
    then show ?thesis using e f by (simp add: keeps_dirs_def)
  next
    assume "\<exists>b. w' = print_stderr (corrupted_warning (backup_name path (clock w 0)))
       (snd (os_WriteFile (backup_name path (clock w 0)) b (snd (time_Now w1))))"
    then obtain b where w': "w' = print_stderr (corrupted_warning (backup_name path (clock w 0)))
       (snd (os_WriteFile (backup_name path (clock w 0)) b (snd (time_Now w1))))" by blast
    show ?thesis
      using e f unfolding w'
      by (auto simp: os_WriteFile_cases print_stderr_def time_Now_def same_env_def
          keeps_dirs_def backup_name_def)
  qed
qed

lemma loadTasks_corrupt_effects:
  assumes "tasksFilePath w = (Inr path, w1)" and "os_ReadFile path w1 = Inr b"
    and "json_Unmarshal J b = Inl e"
  shows "fst (loadTasks J w) = Inr [] \<and>
    stderr (snd (loadTasks J w)) = stderr w @ [corrupted_warning (backup_name path (clock w 0))] \<and>
    stdout (snd (loadTasks J w)) = stdout w \<and>
    fs (snd (loadTasks J w)) path = Some (File b) \<and>
    fs (snd (loadTasks J w)) =
      (if backup_name path (clock w 0) \<in> locked w \<or> fs w1 (backup_name path (clock w 0)) = Some Dir
       then fs w1 else (fs w1)(backup_name path (clock w 0) \<mapsto> File b))"
proof -
  let ?backup = "backup_name path (clock w 0)"
  have e: "same_env w w1" "stdout w1 = stdout w" "stderr w1 = stderr w"
    using tasksFilePath_env [OF assms(1)] by simp_all
  have l: "locked w1 = locked w" using e(1) by (simp add: same_env_def)
  have f: "fs w1 path = Some (File b)" using assms(2) by (simp add: os_ReadFile_Inr)
  have ne: "?backup \<noteq> path" by (simp add: backup_name_def)
  note L = loadTasks_corrupt [OF assms]
  show ?thesis
    using e(2,3) l f ne
    by (simp add: L os_WriteFile_cases print_stderr_def time_Now_def)
qed

lemma saveTasks_ok:
  assumes "tasksFilePath w = (Inr path, w)" and "saveTasks J ts w = (None, w')"
  shows "\<exists>b. json_MarshalIndent J ts = Inr b
           \<and> w' = w\<lparr>fs := (fs w)(path @ ''.tmp'' := None, path \<mapsto> File b)\<rparr>
           \<and> path \<notin> locked w \<and> fs w path \<noteq> Some Dir \<and> fs w (path @ ''.tmp'') \<noteq> Some Dir"
  using assms
  by (auto simp: saveTasks_def os_WriteFile_cases os_Rename_def Let_def
      split: sum.splits if_splits prod.splits option.splits node.splits)

lemma saveTasks_succeeds:
  assumes "tasksFilePath w = (Inr path, w)" and "json_MarshalIndent J ts = Inr b"
    and "path \<notin> locked w" and "path @ ''.tmp'' \<notin> locked w"
    and "fs w path \<noteq> Some Dir" and "fs w (path @ ''.tmp'') \<noteq> Some Dir"
  shows "saveTasks J ts w = (None, w\<lparr>fs := (fs w)(path @ ''.tmp'' := None, path \<mapsto> File b)\<rparr>)"
proof -
  have "fs w path = Some Dir \<longleftrightarrow> False" using assms(5) by simp
  then show ?thesis
    using assms
    by (auto simp: saveTasks_def os_WriteFile_cases os_Rename_def Let_def
        split: option.splits node.splits)
qed

text \<open>
  What a successful save wrote is what the next load reads: after \<open>saveTasks\<close> the store
  file holds the encoding of the collection, and \<open>loadTasks\<close> returns what the decoder
  makes of exactly these bytes (the empty collection, with the backup and the warning, if
  the decoder rejects them).
\<close>

lemma saveTasks_then_loadTasks:
  assumes "tasksFilePath w = (Inr path, w)" and "saveTasks J ts w = (None, w')"
  shows "\<exists>b. json_MarshalIndent J ts = Inr b \<and> fs w' path = Some (File b) \<and>
           loadTasks J w' =
             (case json_Unmarshal J b of
                Inl e \<Rightarrow>
                  (Inr [], print_stderr (corrupted_warning (backup_name path (clock w 0)))
                     (snd (os_WriteFile (backup_name path (clock w 0)) b (snd (time_Now w')))))
              | Inr ts' \<Rightarrow> (Inr ts', w'))"
proof -
  from saveTasks_ok [OF assms] obtain b where
    b: "json_MarshalIndent J ts = Inr b"
    and w': "w' = w\<lparr>fs := (fs w)(path @ ''.tmp'' := None, path \<mapsto> File b)\<rparr>"
    and l: "path \<notin> locked w" and d: "fs w path \<noteq> Some Dir" "fs w (path @ ''.tmp'') \<noteq> Some Dir"
    by blast
  have se: "same_env w w'" by (simp add: w' same_env_def)
  have kd: "keeps_dirs w w'" using d by (auto simp: w' keeps_dirs_def)
  have p: "tasksFilePath w' = (Inr path, w')" by (rule tasksFilePath_again [OF assms(1) se kd])
  have f: "fs w' path = Some (File b)" by (simp add: w')
  have r: "os_ReadFile path w' = Inr b" using l by (simp add: os_ReadFile_Inr w')
  have c: "clock w' = clock w" by (simp add: w')
  have "loadTasks J w' =
             (case json_Unmarshal J b of
                Inl e \<Rightarrow>
                  (Inr [], print_stderr (corrupted_warning (backup_name path (clock w 0)))
                     (snd (os_WriteFile (backup_name path (clock w 0)) b (snd (time_Now w')))))
              | Inr ts' \<Rightarrow> (Inr ts', w'))"
  proof (cases "json_Unmarshal J b")
    case (Inl e)
    from loadTasks_corrupt [OF p r Inl] Inl c show ?thesis by simp
  next
    case (Inr ts')
    from loadTasks_decoded [OF p r Inr] Inr show ?thesis by simp
  qed
  with b f show ?thesis by blast
qed

section \<open>Running the model\<close>

lemma digits_small: "n < 10 \<Longrightarrow> digits n = [digit_char n]"
  by (simp add: digits.simps)

lemma parse5: "strconv_ParseInt ''5'' = Inr 5"
  by (simp add: strconv_ParseInt_def digit_val_def Let_def)


lemma sample_path: "tasksFilePath (sample_world files lk) = (Inr ''tasks.json'', sample_world files lk)"
  by (simp add: tasksFilePath_def sample_world_def)

lemma sample_backup: "backup_name ''tasks.json'' (clock (sample_world files lk) 0) = ''tasks.json.broken.3''"
  by (simp add: backup_name_def sample_world_def Unix_def fmt_d_def digits_small digit_char_def)

lemma sample_load:
  assumes "b \<noteq> []" and "''tasks.json'' \<notin> lk"
  shows "loadTasks (fixed_codec e (Inr ts)) (sample_world [''tasks.json'' \<mapsto> File b] lk) =
     (Inr ts, sample_world [''tasks.json'' \<mapsto> File b] lk)"
proof (rule loadTasks_decoded [OF sample_path])
  show "os_ReadFile ''tasks.json'' (sample_world [''tasks.json'' \<mapsto> File b] lk) = Inr b"
    using assms(2) by (simp add: os_ReadFile_def sample_world_def)
  show "json_Unmarshal (fixed_codec e (Inr ts)) b = Inr ts"
    using assms(1) by (simp add: json_Unmarshal_def fixed_codec_def)
qed

lemma sample_add:
  assumes "json_MarshalIndent J [\<lparr>ID = 1, Title = strings_Join args '' '', Done = False,
              CreatedAt = 3000000000, CompletedAt = None\<rparr>] = Inr b"
    and "args \<noteq> []"
  shows "fst (cmdAdd J args (sample_world Map.empty {})) = None \<and>
         fs (snd (cmdAdd J args (sample_world Map.empty {}))) ''tasks.json'' = Some (File b) \<and>
         stdout (snd (cmdAdd J args (sample_world Map.empty {})))
           = [''Added 1: '' @ strings_Join args '' '' @ newline]"
proof -
  let ?w = "sample_world Map.empty {}"
  let ?w3 = "snd (time_Now ?w)"
  let ?t = "\<lparr>ID = 1, Title = strings_Join args '' '', Done = False,
              CreatedAt = 3000000000, CompletedAt = None\<rparr>"
  have l: "loadTasks J ?w = (Inr [], ?w)"
    by (rule loadTasks_absent [OF sample_path]) (simp_all add: sample_world_def)
  have c: "clock ?w 0 = 3000000000" by (simp add: sample_world_def)
  have n: "nextID [] = 1" by (simp add: nextID_def)
  have a: "addTask [] (strings_Join args '' '') (clock ?w 0) = (1, [?t])"
    by (simp add: addTask_def n c)
  have t: "tasksFilePath ?w3 = (Inr ''tasks.json'', ?w3)"
    by (simp add: tasksFilePath_def time_Now_def sample_world_def)
  have f: "fs ?w3 = Map.empty" "locked ?w3 = {}" "stdout ?w3 = []"
    by (simp_all add: time_Now_def sample_world_def)
  have s: "saveTasks J [?t] ?w3
      = (None, ?w3\<lparr>fs := (fs ?w3)(''tasks.json'' @ ''.tmp'' := None, ''tasks.json'' \<mapsto> File b)\<rparr>)"
    by (rule saveTasks_succeeds [OF t assms(1)]) (simp_all add: f)
  have d: "fmt_d 1 = ''1''"
    by (simp add: fmt_d_def digits_small digit_char_def)
  show ?thesis
    using f(3) by (simp add: cmdAdd_addTask [OF assms(2) l] a s d print_stdout_def)
qed

lemma first_match_sample: "first_match [pending 1, pending 7, finished 7] 7 = 1"
  by (simp add: first_match_def pending_def)

section \<open>Adding a task\<close>

text \<open>
  Claim C3, as the code has it. \<open>cmdAdd\<close> looks at the number of arguments, not at the
  title. Called with no argument it reports the usage error and leaves the environment as
  it was, the store not even read. Called with any arguments, the title is the arguments
  joined by single spaces, which is empty when the only argument is the empty string; if
  the store loads as \<open>ts\<close> and the command reports no error, the store file then holds
  the encoding of \<open>ts\<close> followed by a new task with the next id, this title,
  \<open>Done = False\<close>, \<open>CreatedAt\<close> the clock reading and no \<open>CompletedAt\<close>, and the id
  and title are printed.
\<close>

theorem cmdAdd_appends:
  "cmdAdd J [] w = (Some (Usage ''usage: todo add <task title>''), w) \<and>
   (args \<noteq> [] \<and> tasksFilePath w = (Inr path, w1) \<and> loadTasks J w = (Inr ts, w2)
      \<and> fst (cmdAdd J args w) = None \<longrightarrow>
      (\<exists>b. json_MarshalIndent J
              (ts @ [\<lparr>ID = nextID ts, Title = strings_Join args '' '', Done = False,
                       CreatedAt = clock w2 0, CompletedAt = None\<rparr>]) = Inr b
          \<and> fs (snd (cmdAdd J args w)) path = Some (File b)) \<and>
      stdout (snd (cmdAdd J args w))
        = stdout w @ [''Added '' @ fmt_d (sint (nextID ts)) @ '': ''
                        @ strings_Join args '' '' @ newline])"
proof (intro conjI impI)
  show "cmdAdd J [] w = (Some (Usage ''usage: todo add <task title>''), w)"
    by (simp add: cmdAdd_def)
next
  assume h: "args \<noteq> [] \<and> tasksFilePath w = (Inr path, w1) \<and> loadTasks J w = (Inr ts, w2)
      \<and> fst (cmdAdd J args w) = None"
  let ?t = "\<lparr>ID = nextID ts, Title = strings_Join args '' '', Done = False,
               CreatedAt = clock w2 0, CompletedAt = None\<rparr>"
  let ?w3 = "snd (time_Now w2)"
  from h have a: "args \<noteq> []" and p: "tasksFilePath w = (Inr path, w1)"
    and l: "loadTasks J w = (Inr ts, w2)" and n: "fst (cmdAdd J args w) = None" by simp_all
  have c: "cmdAdd J args w =
      (case saveTasks J (ts @ [?t]) ?w3 of
         (Some e, w4) \<Rightarrow> (Some e, w4)
       | (None, w4) \<Rightarrow>
           (None, print_stdout (''Added '' @ fmt_d (sint (nextID ts)) @ '': ''
                        @ strings_Join args '' '' @ newline) w4))"
    using cmdAdd_addTask [OF a l] by (simp add: addTask_def Let_def)
  obtain r w4 where s: "saveTasks J (ts @ [?t]) ?w3 = (r, w4)" by (cases "saveTasks J (ts @ [?t]) ?w3")
  have r: "r = None" using n c s by (cases r) simp_all
  have w': "snd (cmdAdd J args w) = print_stdout (''Added '' @ fmt_d (sint (nextID ts)) @ '': ''
                        @ strings_Join args '' '' @ newline) w4"
    using c s r by simp
  have le: "same_env w w2" "keeps_dirs w1 w2" "stdout w2 = stdout w"
    using loadTasks_env [OF p l] by simp_all
  have "same_env w ?w3" using le(1) time_Now_env [of w2] same_env_trans by blast
  moreover have "keeps_dirs w1 ?w3" using le(2) time_Now_env [of w2] keeps_dirs_trans by blast
  ultimately have p3: "tasksFilePath ?w3 = (Inr path, ?w3)" by (rule tasksFilePath_again [OF p])
  from saveTasks_ok [OF p3] s r obtain b where
    b: "json_MarshalIndent J (ts @ [?t]) = Inr b"
       "w4 = ?w3\<lparr>fs := (fs ?w3)(path @ ''.tmp'' := None, path \<mapsto> File b)\<rparr>" by blast
  have "fs (snd (cmdAdd J args w)) path = Some (File b)"
    by (simp add: w' b(2) print_stdout_def)
  with b(1) show "\<exists>b. json_MarshalIndent J (ts @ [?t]) = Inr b
          \<and> fs (snd (cmdAdd J args w)) path = Some (File b)" by blast
  show "stdout (snd (cmdAdd J args w))
        = stdout w @ [''Added '' @ fmt_d (sint (nextID ts)) @ '': ''
                        @ strings_Join args '' '' @ newline]"
    using le(3) by (simp add: w' b(2) print_stdout_def time_Now_def)
qed

theorem cmdAdd_appends_witness:
  "[''Buy'', ''milk''] \<noteq> [] \<and>
   loadTasks (fixed_codec (Inr ''saved'') (Inr [])) (sample_world Map.empty {})
     = (Inr [], sample_world Map.empty {}) \<and>
   fst (cmdAdd (fixed_codec (Inr ''saved'') (Inr [])) [''Buy'', ''milk'']
          (sample_world Map.empty {})) = None \<and>
   fs (snd (cmdAdd (fixed_codec (Inr ''saved'') (Inr [])) [''Buy'', ''milk'']
          (sample_world Map.empty {}))) ''tasks.json'' = Some (File ''saved'') \<and>
   stdout (snd (cmdAdd (fixed_codec (Inr ''saved'') (Inr [])) [''Buy'', ''milk'']
          (sample_world Map.empty {}))) = [''Added 1: Buy milk'' @ newline]"
proof -
  let ?w = "sample_world Map.empty {}"
  let ?J = "fixed_codec (Inr ''saved'') (Inr [])"
  let ?args = "[''Buy'', ''milk'']"
  have p: "tasksFilePath ?w = (Inr ''tasks.json'', ?w)" by (rule sample_path)
  have l: "loadTasks ?J ?w = (Inr [], ?w)"
    by (rule loadTasks_absent [OF sample_path]) (simp_all add: sample_world_def)
  have e: "json_MarshalIndent ?J ts = Inr ''saved''" for ts
    by (simp add: json_MarshalIndent_def fixed_codec_def)
  have n: "fst (cmdAdd ?J ?args ?w) = None"
    using sample_add [of ?J ?args "''saved''"] e by simp
  have d: "fmt_d (sint (nextID [])) = ''1''"
    by (simp add: nextID_def fmt_d_def digits_small digit_char_def)
  have s: "stdout ?w = []" by (simp add: sample_world_def)
  from cmdAdd_appends [of ?J ?w ?args "''tasks.json''" ?w "[]" ?w] p l n s show ?thesis
    by (simp add: e d)
qed

theorem cmdAdd_appends_counterexample:
  "fst (cmdAdd
     \<lparr>json_encode = (\<lambda>ts. if ts = [\<lparr>ID = 1, Title = [], Done = False, CreatedAt = 3000000000,
                                      CompletedAt = None\<rparr>]
                          then Inr ''saved'' else Inl (JSONError ''another collection'')),
      json_decode = (\<lambda>b. Inr [])\<rparr>
     [[]] (sample_world Map.empty {})) = None \<and>
   fs (snd (cmdAdd
     \<lparr>json_encode = (\<lambda>ts. if ts = [\<lparr>ID = 1, Title = [], Done = False, CreatedAt = 3000000000,
                                      CompletedAt = None\<rparr>]
                          then Inr ''saved'' else Inl (JSONError ''another collection'')),
      json_decode = (\<lambda>b. Inr [])\<rparr>
     [[]] (sample_world Map.empty {}))) ''tasks.json'' = Some (File ''saved'')"
proof -
  let ?J = "\<lparr>json_encode = (\<lambda>ts. if ts = [\<lparr>ID = 1, Title = [], Done = False, CreatedAt = 3000000000,
                                      CompletedAt = None\<rparr>]
                          then Inr ''saved'' else Inl (JSONError ''another collection'')),
      json_decode = (\<lambda>b. Inr [])\<rparr>"
  have e: "json_MarshalIndent ?J [\<lparr>ID = 1, Title = strings_Join [[]] '' '', Done = False,
              CreatedAt = 3000000000, CompletedAt = None\<rparr>] = Inr ''saved''"
    by (simp add: json_MarshalIndent_def)
  have a: "[[]] \<noteq> ([] :: string list)" by simp
  from sample_add [OF e a] show ?thesis by simp
qed

section \<open>Marking a task done\<close>



section \<open>Collections with a repeated id\<close>

text \<open>
  Claim C9. \<open>loadTasks\<close> returns whatever collection the decoder returns for the bytes
  of the store file, repeated ids included: nothing is checked. For an id that occurs in a
  collection, \<open>findIndexByID\<close> selects the first task with this id in insertion order,
  and \<open>markDone\<close>, \<open>editTask\<close> and \<open>removeTask\<close> change, respectively remove, the task
  at this position only: every other task, a later one with the same id too, stays.
\<close>

theorem first_match_only:
  "(tasksFilePath w = (Inr path, w1) \<and> os_ReadFile path w1 = Inr b \<and> json_Unmarshal J b = Inr ts
      \<longrightarrow> loadTasks J w = (Inr ts, w1)) \<and>
   (tid \<in> ID ` set ts \<longrightarrow>
      first_match ts tid < length ts \<and> ID (ts ! first_match ts tid) = tid \<and>
      (\<forall>j < first_match ts tid. ID (ts ! j) \<noteq> tid) \<and>
      markDone ts tid now =
        (if Done (ts ! first_match ts tid) then Inr AlreadyCompleted
         else Inr (Marked (ts[first_match ts tid :=
                (ts ! first_match ts tid)\<lparr>Done := True, CompletedAt := Some now\<rparr>]))) \<and>
      editTask ts tid title =
        Inr (ts[first_match ts tid := (ts ! first_match ts tid)\<lparr>Title := title\<rparr>]) \<and>
      removeTask ts tid = Inr (take (first_match ts tid) ts @ drop (Suc (first_match ts tid)) ts))"
proof (intro conjI impI allI)
  assume "tasksFilePath w = (Inr path, w1) \<and> os_ReadFile path w1 = Inr b \<and> json_Unmarshal J b = Inr ts"
  then have a: "tasksFilePath w = (Inr path, w1)" and b: "os_ReadFile path w1 = Inr b"
    and c: "json_Unmarshal J b = Inr ts" by simp_all
  show "loadTasks J w = (Inr ts, w1)" by (rule loadTasks_decoded [OF a b c])
next
  assume p: "tid \<in> ID ` set ts"
  show "first_match ts tid < length ts" using p by (rule first_match_less)
  show "ID (ts ! first_match ts tid) = tid" using p by (rule first_match_ID)
  show "markDone ts tid now =
        (if Done (ts ! first_match ts tid) then Inr AlreadyCompleted
         else Inr (Marked (ts[first_match ts tid :=
                (ts ! first_match ts tid)\<lparr>Done := True, CompletedAt := Some now\<rparr>])))"
    using p by (simp add: markDone_cases)
  show "editTask ts tid title =
        Inr (ts[first_match ts tid := (ts ! first_match ts tid)\<lparr>Title := title\<rparr>])"
    using p by (simp add: editTask_cases)
  show "removeTask ts tid = Inr (take (first_match ts tid) ts @ drop (Suc (first_match ts tid)) ts)"
    using p by (simp add: removeTask_cases)
next
  fix j
  assume "tid \<in> ID ` set ts" "j < first_match ts tid"
  then show "ID (ts ! j) \<noteq> tid" by (intro first_match_least)
qed

theorem first_match_only_witness:
  "os_ReadFile ''tasks.json'' (sample_world [''tasks.json'' \<mapsto> File ''data''] {}) = Inr ''data'' \<and>
   json_Unmarshal (fixed_codec (Inr ''[]'') (Inr [pending 1, pending 7, finished 7])) ''data''
     = Inr [pending 1, pending 7, finished 7] \<and>
   loadTasks (fixed_codec (Inr ''[]'') (Inr [pending 1, pending 7, finished 7]))
       (sample_world [''tasks.json'' \<mapsto> File ''data''] {})
     = (Inr [pending 1, pending 7, finished 7],
        sample_world [''tasks.json'' \<mapsto> File ''data''] {}) \<and>
   7 \<in> ID ` set [pending 1, pending 7, finished 7] \<and>
   first_match [pending 1, pending 7, finished 7] 7 = 1 \<and>
   markDone [pending 1, pending 7, finished 7] 7 9
     = Inr (Marked [pending 1, (pending 7)\<lparr>Done := True, CompletedAt := Some 9\<rparr>, finished 7]) \<and>
   editTask [pending 1, pending 7, finished 7] 7 ''new''
     = Inr [pending 1, (pending 7)\<lparr>Title := ''new''\<rparr>, finished 7] \<and>
   removeTask [pending 1, pending 7, finished 7] 7 = Inr [pending 1, finished 7]"
proof -
  let ?ts = "[pending 1, pending 7, finished 7]"
  let ?w = "sample_world [''tasks.json'' \<mapsto> File ''data''] {}"
  let ?J = "fixed_codec (Inr ''[]'') (Inr ?ts)"
  have p: "tasksFilePath ?w = (Inr ''tasks.json'', ?w)" by (rule sample_path)
  have r: "os_ReadFile ''tasks.json'' ?w = Inr ''data''"
    by (simp add: os_ReadFile_def sample_world_def)
  have u: "json_Unmarshal ?J ''data'' = Inr ?ts"
    by (simp add: json_Unmarshal_def fixed_codec_def)
  have m: "7 \<in> ID ` set ?ts" by (simp add: pending_def)
  have d: "\<not> Done (pending 7)" by (simp add: pending_def)
  note T = first_match_only [of ?w "''tasks.json''" ?w "''data''" ?J ?ts 7 9 "''new''"]
  from T p r u have L: "loadTasks ?J ?w = (Inr ?ts, ?w)" by blast
  from T m have K: "markDone ?ts 7 9 =
        (if Done (?ts ! first_match ?ts 7) then Inr AlreadyCompleted
         else Inr (Marked (?ts[first_match ?ts 7 :=
                (?ts ! first_match ?ts 7)\<lparr>Done := True, CompletedAt := Some 9\<rparr>])))"
    "editTask ?ts 7 ''new'' =
        Inr (?ts[first_match ?ts 7 := (?ts ! first_match ?ts 7)\<lparr>Title := ''new''\<rparr>])"
    "removeTask ?ts 7 = Inr (take (first_match ?ts 7) ?ts @ drop (Suc (first_match ?ts 7)) ?ts)"
    by blast+
  have K': "markDone ?ts 7 9
     = Inr (Marked [pending 1, (pending 7)\<lparr>Done := True, CompletedAt := Some 9\<rparr>, finished 7])"
    "editTask ?ts 7 ''new'' = Inr [pending 1, (pending 7)\<lparr>Title := ''new''\<rparr>, finished 7]"
    "removeTask ?ts 7 = Inr [pending 1, finished 7]"
    using d by (simp_all add: K first_match_sample)
  from r u L m K' show ?thesis by (simp add: first_match_sample)
qed

section \<open>Editing a task that is not there\<close>

text \<open>
  Claim C7. If the store loads as \<open>ts\<close> and no task of \<open>ts\<close> has the given id,
  \<open>cmdEdit\<close> reports \<open>TaskNotFound\<close> and returns the environment exactly as
  \<open>loadTasks\<close> left it: \<open>saveTasks\<close> has not run. In it the store file, and the
  temporary file a save would write, are what they were before the command.
\<close>

theorem cmdEdit_not_found:
  assumes "2 \<le> length args" and "strconv_ParseInt (args ! 0) = Inr tid"
    and "tasksFilePath w = (Inr path, w1)" and "loadTasks J w = (Inr ts, w')"
    and "tid \<notin> ID ` set ts"
  shows "cmdEdit J args w = (Some (TaskNotFound tid), w') \<and>
         fs w' path = fs w path \<and> fs w' (path @ ''.tmp'') = fs w (path @ ''.tmp'')"
proof -
  have "editTask ts tid (strings_Join (drop 1 args) '' '') = Inl (TaskNotFound tid)"
    using assms(5) by (simp add: editTask_cases)
  then have c: "cmdEdit J args w = (Some (TaskNotFound tid), w')"
    using cmdEdit_editTask [OF assms(1,2,4)] by simp
  have k: "\<forall>s. s \<noteq> ''.broken.'' @ fmt_d (Unix (clock w 0)) \<longrightarrow> fs w' (path @ s) = fs w (path @ s)"
    using loadTasks_env [OF assms(3,4)] by simp
  have "fs w' (path @ []) = fs w (path @ [])" using k by (intro k [rule_format]) simp
  moreover have "fs w' (path @ ''.tmp'') = fs w (path @ ''.tmp'')"
    by (intro k [rule_format]) simp
  ultimately show ?thesis using c by simp
qed

theorem cmdEdit_not_found_witness:
  "2 \<le> length [''5'', ''new title''] \<and>
   strconv_ParseInt ([''5'', ''new title''] ! 0) = Inr 5 \<and>
   loadTasks (fixed_codec (Inr ''[]'') (Inr [pending 1]))
       (sample_world [''tasks.json'' \<mapsto> File ''data''] {})
     = (Inr [pending 1], sample_world [''tasks.json'' \<mapsto> File ''data''] {}) \<and>
   5 \<notin> ID ` set [pending 1] \<and>
   cmdEdit (fixed_codec (Inr ''[]'') (Inr [pending 1])) [''5'', ''new title'']
       (sample_world [''tasks.json'' \<mapsto> File ''data''] {})
     = (Some (TaskNotFound 5), sample_world [''tasks.json'' \<mapsto> File ''data''] {}) \<and>
   fs (sample_world [''tasks.json'' \<mapsto> File ''data''] {}) ''tasks.json'' = Some (File ''data'')"
proof -
  let ?w = "sample_world [''tasks.json'' \<mapsto> File ''data''] {}"
  let ?J = "fixed_codec (Inr ''[]'') (Inr [pending 1])"
  have a: "2 \<le> length [''5'', ''new title'']" by simp
  have n: "strconv_ParseInt ([''5'', ''new title''] ! 0) = Inr 5" by (simp add: parse5)
  have p: "tasksFilePath ?w = (Inr ''tasks.json'', ?w)" by (rule sample_path)
  have l: "loadTasks ?J ?w = (Inr [pending 1], ?w)" by (simp add: sample_load)
  have m: "5 \<notin> ID ` set [pending 1]" by (simp add: pending_def)
  have f: "fs ?w ''tasks.json'' = Some (File ''data'')" by (simp add: sample_world_def)
  from cmdEdit_not_found [OF a n p l m] a n l m f show ?thesis by simp
qed

section \<open>Loading a store file that does not decode\<close>

text \<open>
  Claim C5, as the code has it. When the store file is read as \<open>b\<close> and \<open>b\<close> does not
  decode, \<open>loadTasks\<close> returns the empty collection and no error, prints the warning that
  names the backup file to the error stream, and leaves the store file as it is. The
  backup file is the store path followed by \<open>.broken.\<close> and the Unix time; writing it
  is attempted once and its failure is ignored: the backup holds \<open>b\<close> unless the operating
  system refuses the write, and then the file system is unchanged.
\<close>

theorem loadTasks_corrupted:
  assumes "tasksFilePath w = (Inr path, w1)" and "os_ReadFile path w1 = Inr b"
    and "json_Unmarshal J b = Inl e"
  shows "fst (loadTasks J w) = Inr [] \<and>
    stderr (snd (loadTasks J w)) = stderr w @ [corrupted_warning (backup_name path (clock w 0))] \<and>
    stdout (snd (loadTasks J w)) = stdout w \<and>
    fs (snd (loadTasks J w)) path = Some (File b) \<and>
    fs (snd (loadTasks J w)) =
      (if backup_name path (clock w 0) \<in> locked w \<or> fs w1 (backup_name path (clock w 0)) = Some Dir
       then fs w1 else (fs w1)(backup_name path (clock w 0) \<mapsto> File b))"
  using assms by (rule loadTasks_corrupt_effects)

theorem loadTasks_corrupted_witness:
  "tasksFilePath (sample_world [''tasks.json'' \<mapsto> File ''{oops''] {})
     = (Inr ''tasks.json'', sample_world [''tasks.json'' \<mapsto> File ''{oops''] {}) \<and>
   os_ReadFile ''tasks.json'' (sample_world [''tasks.json'' \<mapsto> File ''{oops''] {}) = Inr ''{oops'' \<and>
   json_Unmarshal (fixed_codec (Inr ''[]'') (Inl (JSONError ''invalid''))) ''{oops''
     = Inl (JSONError ''invalid'') \<and>
   fst (loadTasks (fixed_codec (Inr ''[]'') (Inl (JSONError ''invalid'')))
         (sample_world [''tasks.json'' \<mapsto> File ''{oops''] {})) = Inr [] \<and>
   fs (snd (loadTasks (fixed_codec (Inr ''[]'') (Inl (JSONError ''invalid'')))
         (sample_world [''tasks.json'' \<mapsto> File ''{oops''] {}))) ''tasks.json.broken.3''
     = Some (File ''{oops'') \<and>
   stderr (snd (loadTasks (fixed_codec (Inr ''[]'') (Inl (JSONError ''invalid'')))
         (sample_world [''tasks.json'' \<mapsto> File ''{oops''] {})))
     = [corrupted_warning ''tasks.json.broken.3'']"
proof -
  let ?w = "sample_world [''tasks.json'' \<mapsto> File ''{oops''] {}"
  let ?J = "fixed_codec (Inr ''[]'') (Inl (JSONError ''invalid''))"
  have p: "tasksFilePath ?w = (Inr ''tasks.json'', ?w)" by (rule sample_path)
  have r: "os_ReadFile ''tasks.json'' ?w = Inr ''{oops''"
    by (simp add: os_ReadFile_def sample_world_def)
  have u: "json_Unmarshal ?J ''{oops'' = Inl (JSONError ''invalid'')"
    by (simp add: json_Unmarshal_def fixed_codec_def)
  have s: "stderr ?w = []" "locked ?w = {}" "fs ?w ''tasks.json.broken.3'' = None"
    by (simp_all add: sample_world_def)
  from loadTasks_corrupted [OF p r u] p r u s show ?thesis
    by (simp add: sample_backup)
qed

theorem loadTasks_corrupted_counterexample:
  "os_ReadFile ''tasks.json''
     (sample_world [''tasks.json'' \<mapsto> File ''{oops''] {''tasks.json.broken.3''}) = Inr ''{oops'' \<and>
   json_Unmarshal (fixed_codec (Inr ''[]'') (Inl (JSONError ''invalid''))) ''{oops''
     = Inl (JSONError ''invalid'') \<and>
   fst (loadTasks (fixed_codec (Inr ''[]'') (Inl (JSONError ''invalid'')))
         (sample_world [''tasks.json'' \<mapsto> File ''{oops''] {''tasks.json.broken.3''})) = Inr [] \<and>
   stderr (snd (loadTasks (fixed_codec (Inr ''[]'') (Inl (JSONError ''invalid'')))
         (sample_world [''tasks.json'' \<mapsto> File ''{oops''] {''tasks.json.broken.3''})))
     = [corrupted_warning ''tasks.json.broken.3''] \<and>
   fs (snd (loadTasks (fixed_codec (Inr ''[]'') (Inl (JSONError ''invalid'')))
         (sample_world [''tasks.json'' \<mapsto> File ''{oops''] {''tasks.json.broken.3''})))
     = [''tasks.json'' \<mapsto> File ''{oops'']"
proof -
  let ?w = "sample_world [''tasks.json'' \<mapsto> File ''{oops''] {''tasks.json.broken.3''}"
  let ?J = "fixed_codec (Inr ''[]'') (Inl (JSONError ''invalid''))"
  have p: "tasksFilePath ?w = (Inr ''tasks.json'', ?w)" by (rule sample_path)
  have r: "os_ReadFile ''tasks.json'' ?w = Inr ''{oops''"
    by (simp add: os_ReadFile_def sample_world_def)
  have u: "json_Unmarshal ?J ''{oops'' = Inl (JSONError ''invalid'')"
    by (simp add: json_Unmarshal_def fixed_codec_def)
  have s: "stderr ?w = []" "locked ?w = {''tasks.json.broken.3''}"
    "fs ?w = [''tasks.json'' \<mapsto> File ''{oops'']"
    by (simp_all add: sample_world_def)
  show ?thesis
    using r u s
    by (simp add: loadTasks_corrupt [OF p r u] sample_backup os_WriteFile_cases print_stderr_def
        time_Now_def)
qed

section \<open>An empty store file and an absent one\<close>

text \<open>
  Claim C10, as the code has it. A store file that exists with zero bytes is handled as a
  file that does not decode: \<open>loadTasks\<close> returns the empty collection, prints the
  warning, and attempts the backup, which then holds zero bytes unless the operating
  system refuses the write. When no file exists at the store path, \<open>loadTasks\<close> returns
  the empty collection in the environment that resolving the path left: nothing is
  printed and no file is created.
\<close>

theorem loadTasks_empty_file:
  assumes "tasksFilePath w = (Inr path, w1)" and "path \<notin> locked w"
  shows
   "(fs w path = Some (File []) \<longrightarrow>
       fst (loadTasks J w) = Inr [] \<and>
       stderr (snd (loadTasks J w))
         = stderr w @ [corrupted_warning (backup_name path (clock w 0))] \<and>
       fs (snd (loadTasks J w)) =
         (if backup_name path (clock w 0) \<in> locked w
             \<or> fs w1 (backup_name path (clock w 0)) = Some Dir
          then fs w1 else (fs w1)(backup_name path (clock w 0) \<mapsto> File []))) \<and>
    (fs w path = None \<longrightarrow>
       loadTasks J w = (Inr [], w1) \<and> stderr w1 = stderr w \<and>
       (\<forall>p c. fs w1 p = Some (File c) \<longrightarrow> fs w p = Some (File c)))"
proof -
  have e: "same_env w w1" "stderr w1 = stderr w"
    using tasksFilePath_env [OF assms(1)] by simp_all
  have l: "path \<notin> locked w1" using e(1) assms(2) by (simp add: same_env_def)
  have f: "fs w1 path = fs w path" using tasksFilePath_fs_other [OF assms(1), of "[]"] by simp
  show ?thesis
  proof (intro conjI impI allI)
    assume "fs w path = Some (File [])"
    then have r: "os_ReadFile path w1 = Inr []" using l f by (simp add: os_ReadFile_Inr)
    note E = loadTasks_corrupt_effects [OF assms(1) r json_Unmarshal_empty]
    show "fst (loadTasks J w) = Inr []" using E by simp
    show "stderr (snd (loadTasks J w))
         = stderr w @ [corrupted_warning (backup_name path (clock w 0))]" using E by simp
    show "fs (snd (loadTasks J w)) =
         (if backup_name path (clock w 0) \<in> locked w
             \<or> fs w1 (backup_name path (clock w 0)) = Some Dir
          then fs w1 else (fs w1)(backup_name path (clock w 0) \<mapsto> File []))" using E by simp
  next
    assume "fs w path = None"
    then show "loadTasks J w = (Inr [], w1)"
      using f l by (intro loadTasks_absent [OF assms(1)]) simp_all
  next
    show "stderr w1 = stderr w" by (rule e(2))
  next
    fix p c
    assume "fs w1 p = Some (File c)"
    then show "fs w p = Some (File c)" by (rule tasksFilePath_files [OF assms(1)])
  qed
qed

theorem loadTasks_empty_file_witness:
  "tasksFilePath (sample_world [''tasks.json'' \<mapsto> File []] {})
     = (Inr ''tasks.json'', sample_world [''tasks.json'' \<mapsto> File []] {}) \<and>
   ''tasks.json'' \<notin> locked (sample_world [''tasks.json'' \<mapsto> File []] {}) \<and>
   fs (sample_world [''tasks.json'' \<mapsto> File []] {}) ''tasks.json'' = Some (File []) \<and>
   fst (loadTasks (fixed_codec (Inr ''[]'') (Inr [pending 1]))
          (sample_world [''tasks.json'' \<mapsto> File []] {})) = Inr [] \<and>
   stderr (snd (loadTasks (fixed_codec (Inr ''[]'') (Inr [pending 1]))
          (sample_world [''tasks.json'' \<mapsto> File []] {})))
     = [corrupted_warning ''tasks.json.broken.3''] \<and>
   fs (snd (loadTasks (fixed_codec (Inr ''[]'') (Inr [pending 1]))
          (sample_world [''tasks.json'' \<mapsto> File []] {}))) ''tasks.json.broken.3''
     = Some (File []) \<and>
   tasksFilePath (sample_world Map.empty {}) = (Inr ''tasks.json'', sample_world Map.empty {}) \<and>
   fs (sample_world Map.empty {}) ''tasks.json'' = None \<and>
   loadTasks (fixed_codec (Inr ''[]'') (Inr [pending 1])) (sample_world Map.empty {})
     = (Inr [], sample_world Map.empty {})"
proof -
  let ?w = "sample_world [''tasks.json'' \<mapsto> File []] {}"
  let ?v = "sample_world Map.empty {}"
  let ?J = "fixed_codec (Inr ''[]'') (Inr [pending 1])"
  have p: "tasksFilePath ?w = (Inr ''tasks.json'', ?w)" by (rule sample_path)
  have q: "tasksFilePath ?v = (Inr ''tasks.json'', ?v)" by (rule sample_path)
  have l: "''tasks.json'' \<notin> locked ?w" "''tasks.json'' \<notin> locked ?v"
    by (simp_all add: sample_world_def)
  have s: "fs ?w ''tasks.json'' = Some (File [])" "stderr ?w = []" "locked ?w = {}"
    "fs ?w ''tasks.json.broken.3'' = None" "fs ?v ''tasks.json'' = None"
    by (simp_all add: sample_world_def)
  from loadTasks_empty_file [OF p l(1), of ?J] loadTasks_empty_file [OF q l(2), of ?J] p q s
  show ?thesis by (simp add: sample_backup)
qed

theorem loadTasks_empty_file_counterexample:
  "fs (sample_world [''tasks.json'' \<mapsto> File []] {''tasks.json.broken.3''}) ''tasks.json''
     = Some (File []) \<and>
   fst (loadTasks (fixed_codec (Inr ''[]'') (Inr [pending 1]))
          (sample_world [''tasks.json'' \<mapsto> File []] {''tasks.json.broken.3''})) = Inr [] \<and>
   stderr (snd (loadTasks (fixed_codec (Inr ''[]'') (Inr [pending 1]))
          (sample_world [''tasks.json'' \<mapsto> File []] {''tasks.json.broken.3''})))
     = [corrupted_warning ''tasks.json.broken.3''] \<and>
   fs (snd (loadTasks (fixed_codec (Inr ''[]'') (Inr [pending 1]))
          (sample_world [''tasks.json'' \<mapsto> File []] {''tasks.json.broken.3''})))
     = [''tasks.json'' \<mapsto> File []]"
proof -
  let ?w = "sample_world [''tasks.json'' \<mapsto> File []] {''tasks.json.broken.3''}"
  let ?J = "fixed_codec (Inr ''[]'') (Inr [pending 1])"
  have p: "tasksFilePath ?w = (Inr ''tasks.json'', ?w)" by (rule sample_path)
  have r: "os_ReadFile ''tasks.json'' ?w = Inr []"
    by (simp add: os_ReadFile_def sample_world_def)
  have s: "stderr ?w = []" "locked ?w = {''tasks.json.broken.3''}"
    "fs ?w = [''tasks.json'' \<mapsto> File []]"
    by (simp_all add: sample_world_def)
  show ?thesis
    using s
    by (simp add: loadTasks_corrupt [OF p r json_Unmarshal_empty] sample_backup
        os_WriteFile_cases print_stderr_def time_Now_def)
qed

end
